theory Spec2Isabelle
  imports Complex_Main "HOL-Library.Sublist" "HOL-Library.AList"
begin

section \<open>Strings and character classes\<close>

text \<open>
  A JavaScript string is modelled as a \<^typ>\<open>string\<close>, one \<^typ>\<open>char\<close> per code unit.
  The model's alphabet is the code units U+0000 to U+00FF. The two regular expressions and
  \<^verbatim>\<open>trim\<close> only distinguish the ASCII characters they name and white space; every white
  space or line terminator code unit above U+00FF behaves as U+00A0 does here and every
  other code unit above U+00FF as any non-identifier, non-space character does.
\<close>

definition is_space :: "char \<Rightarrow> bool" where
  \<comment> \<open>\<^verbatim>\<open>\s\<close> and the characters \<^verbatim>\<open>trim\<close> strips: TAB, LF, VT, FF, CR, SPACE, NBSP.\<close>
  "is_space c \<longleftrightarrow>
     c = CHR 0x09 \<or> c = CHR 0x0A \<or> c = CHR 0x0B \<or> c = CHR 0x0C \<or> c = CHR 0x0D \<or>
     c = CHR 0x20 \<or> c = CHR 0xA0"

definition in_range :: "char \<Rightarrow> char \<Rightarrow> char \<Rightarrow> bool" where
  "in_range lo hi c \<longleftrightarrow> (of_char lo :: nat) \<le> of_char c \<and> (of_char c :: nat) \<le> of_char hi"

definition id_char :: "char \<Rightarrow> bool" where
  \<comment> \<open>\<^verbatim>\<open>[a-zA-Z0-9_-]\<close>\<close>
  "id_char c \<longleftrightarrow>
     in_range CHR ''a'' CHR ''z'' c \<or> in_range CHR ''A'' CHR ''Z'' c \<or>
     in_range CHR ''0'' CHR ''9'' c \<or> c = CHR ''_'' \<or> c = CHR ''-''"

definition seg_char :: "char \<Rightarrow> bool" where
  \<comment> \<open>\<^verbatim>\<open>[^\/\n\s]\<close>\<close>
  "seg_char c \<longleftrightarrow> \<not> (c = CHR ''/'' \<or> c = CHR 0x0A \<or> is_space c)"

definition non_space :: "char \<Rightarrow> bool" where
  \<comment> \<open>\<^verbatim>\<open>\S\<close>\<close>
  "non_space c \<longleftrightarrow> \<not> is_space c"

definition qmark_amp :: "char \<Rightarrow> bool" where
  \<comment> \<open>\<^verbatim>\<open>[?&]\<close>\<close>
  "qmark_amp c \<longleftrightarrow> c = CHR ''?'' \<or> c = CHR ''&''"

definition trim :: "string \<Rightarrow> string" where
  \<comment> \<open>\<^verbatim>\<open>String.prototype.trim\<close>\<close>
  "trim s = rev (dropWhile is_space (rev (dropWhile is_space s)))"


section \<open>Regular expressions with backtracking\<close>

text \<open>
  The fragment of ECMAScript regular expressions that the two patterns of the repository
  use. Every \<^verbatim>\<open>+\<close>, \<^verbatim>\<open>*?\<close> and \<^verbatim>\<open>{n}\<close> of the source quantifies a character class,
  every \<^verbatim>\<open>?\<close> a literal or a non-capturing group, and there is one capturing group.
\<close>

datatype regex =
    RLit string                   \<comment> \<open>a sequence of literal characters\<close>
  | RClass "char \<Rightarrow> bool"          \<comment> \<open>one character of a class\<close>
  | RSeq regex regex              \<comment> \<open>concatenation\<close>
  | RAlt regex regex              \<comment> \<open>\<^verbatim>\<open>a|b\<close>, left alternative first\<close>
  | ROpt regex                    \<comment> \<open>greedy \<^verbatim>\<open>a?\<close>\<close>
  | RPlus "char \<Rightarrow> bool"           \<comment> \<open>greedy \<^verbatim>\<open>[..]+\<close>\<close>
  | RLazyStar "char \<Rightarrow> bool"       \<comment> \<open>lazy \<^verbatim>\<open>[..]*?\<close>\<close>
  | RExactly nat "char \<Rightarrow> bool"    \<comment> \<open>\<^verbatim>\<open>[..]{n}\<close>\<close>
  | RGroup regex                  \<comment> \<open>capturing group 1\<close>

text \<open>
  A match state is the current value of group 1 and the input not yet consumed. The
  matcher returns the states after every way of matching, in the order in which the
  backtracking matcher of ECMAScript tries them; the head of the list is the match it
  reports.
\<close>

type_synonym mstate = "string option \<times> string"

fun lit :: "string \<Rightarrow> string \<Rightarrow> string option" where
  "lit [] s = Some s"
| "lit (c # cs) [] = None"
| "lit (c # cs) (x # xs) = (if c = x then lit cs xs else None)"

fun greedy_plus :: "(char \<Rightarrow> bool) \<Rightarrow> string \<Rightarrow> string list" where
  "greedy_plus p [] = []"
| "greedy_plus p (x # xs) = (if p x then greedy_plus p xs @ [xs] else [])"

fun lazy_star :: "(char \<Rightarrow> bool) \<Rightarrow> string \<Rightarrow> string list" where
  "lazy_star p [] = [[]]"
| "lazy_star p (x # xs) = (x # xs) # (if p x then lazy_star p xs else [])"

definition exactly :: "nat \<Rightarrow> (char \<Rightarrow> bool) \<Rightarrow> string \<Rightarrow> string list" where
  "exactly n p s = (if n \<le> length s \<and> list_all p (take n s) then [drop n s] else [])"

primrec run :: "regex \<Rightarrow> mstate \<Rightarrow> mstate list" where
  "run (RLit l) = (\<lambda>st. case lit l (snd st) of None \<Rightarrow> [] | Some r \<Rightarrow> [(fst st, r)])"
| "run (RClass p) = (\<lambda>st. case snd st of [] \<Rightarrow> []
                           | x # r \<Rightarrow> if p x then [(fst st, r)] else [])"
| "run (RSeq a b) = (\<lambda>st. concat (map (run b) (run a st)))"
| "run (RAlt a b) = (\<lambda>st. run a st @ run b st)"
| "run (ROpt a) = (\<lambda>st. run a st @ [st])"
| "run (RPlus p) = (\<lambda>st. map (Pair (fst st)) (greedy_plus p (snd st)))"
| "run (RLazyStar p) = (\<lambda>st. map (Pair (fst st)) (lazy_star p (snd st)))"
| "run (RExactly n p) = (\<lambda>st. map (Pair (fst st)) (exactly n p (snd st)))"
| "run (RGroup a) = (\<lambda>st.
     map (\<lambda>st'. (Some (take (length (snd st) - length (snd st')) (snd st)), snd st'))
       (run a st))"

text \<open>
  \<^verbatim>\<open>input.match(re)\<close> for a pattern without the \<^verbatim>\<open>g\<close> flag: the first start index, from 0
  up to the length of the input, at which the pattern matches.
\<close>

fun search :: "regex \<Rightarrow> string \<Rightarrow> mstate option" where
  "search r [] = (case run r (None, []) of [] \<Rightarrow> None | m # _ \<Rightarrow> Some m)"
| "search r (x # xs) =
     (case run r (None, x # xs) of [] \<Rightarrow> search r xs | m # _ \<Rightarrow> Some m)"

definition group1 :: "mstate \<Rightarrow> string" where
  \<comment> \<open>\<^verbatim>\<open>match[1]\<close>. Both patterns end in their capturing group, so it is set in every match
      (lemma \<open>search_group_set\<close>); the second case is never taken.\<close>
  "group1 m = (case fst m of Some v \<Rightarrow> v | None \<Rightarrow> [])"


section \<open>The two patterns\<close>

definition scheme_opt :: regex where
  \<comment> \<open>\<^verbatim>\<open>(?:https?:\/\/)?\<close>\<close>
  "scheme_opt = ROpt (RSeq (RLit ''http'') (RSeq (ROpt (RLit ''s'')) (RLit ''://'')))"

definition www_opt :: regex where
  \<comment> \<open>\<^verbatim>\<open>(?:www\.)?\<close>\<close>
  "www_opt = ROpt (RLit ''www.'')"

definition v_or_embed :: regex where
  \<comment> \<open>\<^verbatim>\<open>(?:v|e(?:mbed)?)\<close>\<close>
  "v_or_embed = RAlt (RLit ''v'') (RSeq (RLit ''e'') (ROpt (RLit ''mbed'')))"

definition two_segments :: regex where
  \<comment> \<open>\<^verbatim>\<open>[^\/\n\s]+\/\S+\/\<close>\<close>
  "two_segments =
     RSeq (RPlus seg_char) (RSeq (RLit ''/'') (RSeq (RPlus non_space) (RLit ''/'')))"

definition id11 :: regex where
  \<comment> \<open>\<^verbatim>\<open>([a-zA-Z0-9_-]{11})\<close>\<close>
  "id11 = RGroup (RExactly 11 id_char)"

definition gemini_core :: regex where
  \<comment> \<open>\<^verbatim>\<open>(?:youtube\.com\/(?:[^\/\n\s]+\/\S+\/|(?:v|e(?:mbed)?)\/|\S*?[?&]v=)|youtu\.be\/)\<close>\<close>
  "gemini_core =
     RAlt (RSeq (RLit ''youtube.com/'')
             (RAlt two_segments
             (RAlt (RSeq v_or_embed (RLit ''/''))
                   (RSeq (RLazyStar non_space) (RSeq (RClass qmark_amp) (RLit ''v=''))))))
          (RLit ''youtu.be/'')"

definition gemini_regex :: regex where
  \<comment> \<open>the pattern of the generative provider's \<^verbatim>\<open>analyzeVideoSentiment\<close>\<close>
  "gemini_regex = RSeq scheme_opt (RSeq www_opt (RSeq gemini_core id11))"

definition backend_core :: regex where
  \<comment> \<open>\<^verbatim>\<open>(?:youtube\.com\/(?:[^\/\n\s]+\/\S+\/(?:v|e(?:mbed)?))|(?:v|e(?:mbed)?|watch)(?:\?v=|\/)|youtu\.be\/)\<close>\<close>
  "backend_core =
     RAlt (RSeq (RLit ''youtube.com/'') (RSeq two_segments v_or_embed))
    (RAlt (RSeq (RAlt (RLit ''v'') (RAlt (RSeq (RLit ''e'') (ROpt (RLit ''mbed''))) (RLit ''watch'')))
                (RAlt (RLit ''?v='') (RLit ''/'')))
          (RLit ''youtu.be/''))"

definition backend_regex :: regex where
  \<comment> \<open>the pattern of \<^verbatim>\<open>extractVideoId\<close>\<close>
  "backend_regex = RSeq scheme_opt (RSeq www_opt (RSeq backend_core id11))"


section \<open>Input normalisation\<close>

definition extractVideoId :: "string \<Rightarrow> string" where
  \<comment> \<open>HTTP backend form: \<^verbatim>\<open>return match ? match[1] : input.trim()\<close>\<close>
  "extractVideoId input =
     (case search backend_regex input of Some m \<Rightarrow> group1 m | None \<Rightarrow> trim input)"

definition gemini_videoId :: "string \<Rightarrow> string" where
  \<comment> \<open>generative form: \<^verbatim>\<open>const videoId = videoIdMatch ? videoIdMatch[1] : "unknown"\<close>\<close>
  "gemini_videoId videoUrl =
     (case search gemini_regex videoUrl of Some m \<Rightarrow> group1 m | None \<Rightarrow> ''unknown'')"

section \<open>Provider responses\<close>

text \<open>
  A parsed JSON value, as \<^verbatim>\<open>JSON.parse\<close> and \<^verbatim>\<open>Response.json\<close> return it. Numbers are
  carried through unchanged and never computed with. An object is its list of properties.
\<close>

datatype json =
    JNull
  | JBool bool
  | JNum real
  | JStr string
  | JArr "json list"
  | JObj "(string \<times> json) list"

definition get_prop :: "json \<Rightarrow> string \<Rightarrow> json option" where
  \<comment> \<open>reading \<^verbatim>\<open>value.key\<close> of an object; \<open>None\<close> is \<^verbatim>\<open>undefined\<close>\<close>
  "get_prop j k = (case j of JObj kvs \<Rightarrow> map_of kvs k | _ \<Rightarrow> None)"

definition digit :: "nat \<Rightarrow> char" where
  "digit d = char_of (48 + d)"

fun decimal :: "nat \<Rightarrow> string" where
  "decimal n = (if n < 10 then [digit n] else decimal (n div 10) @ [digit (n mod 10)])"

declare decimal.simps [simp del]

definition own_props :: "json \<Rightarrow> (string \<times> json) list" where
  \<comment> \<open>the own enumerable properties that the spread \<^verbatim>\<open>...data\<close> copies\<close>
  "own_props j =
     (case j of
        JObj kvs \<Rightarrow> kvs
      | JArr xs \<Rightarrow> zip (map decimal [0 ..< length xs]) xs
      | JStr s \<Rightarrow> zip (map decimal [0 ..< length s]) (map (\<lambda>c. JStr [c]) s)
      | _ \<Rightarrow> [])"

datatype failure =
    Rejected string       \<comment> \<open>the provider call rejected, with the runtime's message\<close>
  | BackendError string   \<comment> \<open>\<^verbatim>\<open>throw new Error(`Backend error ${res.status}`)\<close>\<close>
  | SyntaxError           \<comment> \<open>the payload does not parse as JSON\<close>

text \<open>
  What the environment answers to the one outbound call. The text of a response is
  given by what parsing it yields: \<open>None\<close> when \<^verbatim>\<open>JSON.parse\<close> (or \<^verbatim>\<open>res.json()\<close>) throws.
\<close>

datatype gen_outcome =
    GenRejected string          \<comment> \<open>\<^verbatim>\<open>generateContent\<close> rejects\<close>
  | GenResponse "json option"   \<comment> \<open>\<^verbatim>\<open>response.text\<close>\<close>

datatype http_outcome =
    FetchRejected string             \<comment> \<open>\<^verbatim>\<open>fetch\<close> rejects (network error)\<close>
  | HttpResponse nat "json option"   \<comment> \<open>status and body\<close>

definition ok :: "nat \<Rightarrow> bool" where
  \<comment> \<open>\<^verbatim>\<open>res.ok\<close>\<close>
  "ok st \<longleftrightarrow> 200 \<le> st \<and> st \<le> 299"

definition gemini_analyzeVideoSentiment :: "string \<Rightarrow> gen_outcome \<Rightarrow> failure + json" where
  "gemini_analyzeVideoSentiment videoUrl out =
     (let videoId = gemini_videoId videoUrl in
      case out of
        GenRejected why \<Rightarrow> Inl (Rejected why)
      | GenResponse None \<Rightarrow> Inl SyntaxError
      | GenResponse (Some data) \<Rightarrow>
          Inr (JObj (AList.update ''video_id'' (JStr videoId) (own_props data))))"

definition backend_analyzeVideoSentiment :: "string \<Rightarrow> http_outcome \<Rightarrow> failure + json" where
  "backend_analyzeVideoSentiment urlOrId out =
     (let videoId = extractVideoId urlOrId in
      case out of
        FetchRejected why \<Rightarrow> Inl (Rejected why)
      | HttpResponse st body \<Rightarrow>
          if \<not> ok st then Inl (BackendError (''Backend error '' @ decimal st))
          else (case body of None \<Rightarrow> Inl SyntaxError | Some data \<Rightarrow> Inr data))"


section \<open>The request controller\<close>

datatype AnalysisStatus = IDLE | LOADING | SUCCESS | ERROR

text \<open>
  The four state cells of \<^verbatim>\<open>App\<close>, the console, and the calls to
  \<^verbatim>\<open>analyzeVideoSentiment\<close> that have been issued and not yet settled (each by its
  argument).
\<close>

record app =
  url :: string
  status :: AnalysisStatus
  data :: json
  error :: "string option"
  console :: "failure list"
  pending :: "string list"

definition initial :: app where
  "initial = \<lparr>url = [], status = IDLE, data = JNull, error = None, console = [], pending = []\<rparr>"

definition user_message :: string where
  "user_message = ''Failed to process video. Please check the URL and try again.''"

definition submit :: "app \<Rightarrow> app" where
  \<comment> \<open>\<^verbatim>\<open>handleSubmit\<close> up to its \<^verbatim>\<open>await\<close>\<close>
  "submit s =
     (if trim (url s) = [] then s
      else s\<lparr>status := LOADING, error := None, data := JNull, pending := pending s @ [url s]\<rparr>)"

definition settle :: "(string \<Rightarrow> 'o \<Rightarrow> failure + json) \<Rightarrow> nat \<Rightarrow> 'o \<Rightarrow> app \<Rightarrow> app" where
  \<comment> \<open>\<^verbatim>\<open>handleSubmit\<close> from its \<^verbatim>\<open>await\<close> on, for the \<open>k\<close>-th call in flight\<close>
  "settle analyze k out s =
     (if k < length (pending s) then
        (let s' = s\<lparr>pending := take k (pending s) @ drop (Suc k) (pending s)\<rparr> in
         case analyze (pending s ! k) out of
           Inr result \<Rightarrow> s'\<lparr>data := result, status := SUCCESS\<rparr>
         | Inl err \<Rightarrow> s'\<lparr>console := console s @ [err], error := Some user_message,
                         status := ERROR\<rparr>)
      else s)"

definition handleSubmit :: "(string \<Rightarrow> 'o \<Rightarrow> failure + json) \<Rightarrow> 'o \<Rightarrow> app \<Rightarrow> app" where
  \<comment> \<open>one run of \<^verbatim>\<open>handleSubmit\<close> whose provider call is answered by \<open>out\<close>\<close>
  "handleSubmit analyze out s =
     (if trim (url s) = [] then s else settle analyze (length (pending s)) out (submit s))"

text \<open>
  The events of the page: typing into the input, submitting the form, and the settling
  of a call in flight. The submit button carries
  \<^verbatim>\<open>disabled={status === AnalysisStatus.LOADING}\<close>, so the form cannot be submitted while
  the status is \<open>LOADING\<close>. \<open>None\<close> says that the event cannot happen in the state.
\<close>

datatype 'o event = Typing string | Submit | Settle nat 'o

fun fire :: "(string \<Rightarrow> 'o \<Rightarrow> failure + json) \<Rightarrow> 'o event \<Rightarrow> app \<Rightarrow> app option" where
  "fire analyze (Typing u) s = Some (s\<lparr>url := u\<rparr>)"
| "fire analyze Submit s = (if status s = LOADING then None else Some (submit s))"
| "fire analyze (Settle k out) s =
     (if k < length (pending s) then Some (settle analyze k out s) else None)"

fun execute :: "(string \<Rightarrow> 'o \<Rightarrow> failure + json) \<Rightarrow> 'o event list \<Rightarrow> app \<Rightarrow> app option" where
  "execute analyze [] s = Some s"
| "execute analyze (e # es) s =
     (case fire analyze e s of None \<Rightarrow> None | Some s' \<Rightarrow> execute analyze es s')"


section \<open>Auxiliary notions\<close>

text \<open>
  \<open>consumes P r\<close> is a syntactic sufficient condition for every match of \<open>r\<close> to consume
  a character that satisfies \<open>P\<close>.
\<close>

primrec consumes :: "(char \<Rightarrow> bool) \<Rightarrow> regex \<Rightarrow> bool" where
  "consumes P (RLit l) = list_ex P l"
| "consumes P (RClass p) = False"
| "consumes P (RSeq a b) = (consumes P a \<or> consumes P b)"
| "consumes P (RAlt a b) = (consumes P a \<and> consumes P b)"
| "consumes P (ROpt a) = False"
| "consumes P (RPlus p) = False"
| "consumes P (RLazyStar p) = False"
| "consumes P (RExactly n p) = False"
| "consumes P (RGroup a) = consumes P a"



definition loading_inv :: "app \<Rightarrow> bool" where
  \<comment> \<open>the invariant of the reachable states: a call is in flight exactly while the status
      is \<open>LOADING\<close>, and then it is the only one\<close>
  "loading_inv s \<longleftrightarrow>
     (if status s = LOADING
      then data s = JNull \<and> error s = None \<and>
           (case pending s of [u] \<Rightarrow> trim u \<noteq> [] | _ \<Rightarrow> False)
      else pending s = [])"

text \<open>
  The watch, shortened and embed forms of a video URL, up to the identifier: an optional
  scheme, an optional \<^verbatim>\<open>www.\<close> and the host with the path that introduces the identifier.
\<close>

definition video_url_prefixes :: "string list" where
  "video_url_prefixes =
     [scheme @ www @ host.
        scheme \<leftarrow> [[], ''http://'', ''https://''],
        www \<leftarrow> [[], ''www.''],
        host \<leftarrow> [''youtu.be/'', ''youtube.com/watch?v='', ''youtube.com/embed/'']]"


section \<open>Properties of the matcher\<close>

lemma lit_Some_iff: "lit l s = Some r \<longleftrightarrow> s = l @ r"
  by (induction l s rule: lit.induct) auto

lemma lit_Some_iff': "Some r = lit l s \<longleftrightarrow> s = l @ r"
  using lit_Some_iff[of l s r] by auto

lemma lit_None_iff: "lit l s = None \<longleftrightarrow> \<not> prefix l s"
  by (induction l s rule: lit.induct) auto

lemma greedy_plus_suffix: "r \<in> set (greedy_plus p s) \<Longrightarrow> suffix r s"
  by (induction p s rule: greedy_plus.induct) (auto split: if_splits intro: suffix_ConsI)

lemma lazy_star_suffix: "r \<in> set (lazy_star p s) \<Longrightarrow> suffix r s"
  by (induction p s rule: lazy_star.induct) (auto split: if_splits intro: suffix_ConsI)

lemma exactly_suffix: "r \<in> set (exactly n p s) \<Longrightarrow> suffix r s"
  by (auto simp: exactly_def suffix_drop split: if_splits)

lemma run_suffix_pair: "(g', s') \<in> set (run r (g, s)) \<Longrightarrow> suffix s' s"
proof (induction r arbitrary: g s g' s')
  case (RLit l)
  then show ?case by (auto simp: lit_Some_iff lit_Some_iff' suffix_def split: option.splits)
next
  case (RClass p)
  then show ?case by (auto simp: suffix_def split: list.splits if_splits)
next
  case (RSeq a b)
  then obtain g1 s1 where "(g1, s1) \<in> set (run a (g, s))" "(g', s') \<in> set (run b (g1, s1))"
    by auto
  then show ?case using RSeq.IH suffix_order.trans by blast
next
  case (RAlt a b)
  then show ?case by auto
next
  case (ROpt a)
  then show ?case by auto
next
  case (RPlus p)
  then show ?case by (auto dest: greedy_plus_suffix)
next
  case (RLazyStar p)
  then show ?case by (auto dest: lazy_star_suffix)
next
  case (RExactly n p)
  then show ?case by (auto dest: exactly_suffix)
next
  case (RGroup a)
  then show ?case by auto
qed

lemma run_suffix: "m \<in> set (run r st) \<Longrightarrow> suffix (snd m) (snd st)"
  using run_suffix_pair[of "fst m" "snd m" r "fst st" "snd st"] by simp

lemma suffix_free: "suffix r s \<Longrightarrow> \<not> list_ex P s \<Longrightarrow> \<not> list_ex P r"
  by (auto simp: suffix_def list_ex_iff)

lemma run_consumes: "consumes P r \<Longrightarrow> \<not> list_ex P (snd st) \<Longrightarrow> run r st = []"
proof (induction r arbitrary: st)
  case (RLit l)
  have "\<not> prefix l (snd st)"
  proof
    assume "prefix l (snd st)"
    then have "set l \<subseteq> set (snd st)" by (auto simp: prefix_def)
    with RLit show False by (auto simp: list_ex_iff)
  qed
  then show ?case by (simp add: lit_None_iff[symmetric])
next
  case (RSeq a b)
  show ?case
  proof (cases "consumes P a")
    case True
    then show ?thesis using RSeq by simp
  next
    case False
    with RSeq.prems have b: "consumes P b" by simp
    have "run b st' = []" if "st' \<in> set (run a st)" for st'
      using that RSeq.IH(2)[OF b] RSeq.prems(2) run_suffix suffix_free by blast
    then show ?thesis by simp
  qed
next
  case (RGroup a)
  then show ?case by simp
qed simp_all

lemma search_None_iff: "search r s = None \<longleftrightarrow> (\<forall>u. suffix u s \<longrightarrow> run r (None, u) = [])"
  by (induction s) (auto simp: suffix_Cons split: list.splits)

lemma search_Some: "search r s = Some m \<Longrightarrow> \<exists>u. suffix u s \<and> m \<in> set (run r (None, u))"
  by (induction s) (auto simp: suffix_Cons split: list.splits)

lemma search_consumes: "consumes P r \<Longrightarrow> \<not> list_ex P s \<Longrightarrow> search r s = None"
  unfolding search_None_iff using run_consumes suffix_free by fastforce


lemma greedy_plus_extend: "r \<in> set (greedy_plus p s) \<Longrightarrow> r @ t \<in> set (greedy_plus p (s @ t))"
  by (induction p s rule: greedy_plus.induct) (auto split: if_splits)

lemma lazy_star_extend: "r \<in> set (lazy_star p s) \<Longrightarrow> r @ t \<in> set (lazy_star p (s @ t))"
proof (induction p s rule: lazy_star.induct)
  case (1 p)
  then show ?case by (cases t) auto
next
  case (2 p x xs)
  then show ?case by (auto split: if_splits)
qed

lemma exactly_extend: "r \<in> set (exactly n p s) \<Longrightarrow> r @ t \<in> set (exactly n p (s @ t))"
  by (auto simp: exactly_def split: if_splits)

lemma run_extend: "(g', s') \<in> set (run r (g, s)) \<Longrightarrow> (g', s' @ t) \<in> set (run r (g, s @ t))"
proof (induction r arbitrary: g s g' s')
  case (RLit l)
  then show ?case by (auto simp: lit_Some_iff lit_Some_iff' split: option.splits)
next
  case (RClass p)
  then show ?case by (auto split: list.splits if_splits)
next
  case (RSeq a b)
  then obtain g1 s1 where "(g1, s1) \<in> set (run a (g, s))" "(g', s') \<in> set (run b (g1, s1))"
    by auto
  then have "(g1, s1 @ t) \<in> set (run a (g, s @ t))" "(g', s' @ t) \<in> set (run b (g1, s1 @ t))"
    using RSeq.IH by blast+
  then show ?case by auto
next
  case (RAlt a b)
  then show ?case by auto
next
  case (ROpt a)
  then show ?case by auto
next
  case (RPlus p)
  then show ?case by (auto dest: greedy_plus_extend)
next
  case (RLazyStar p)
  then show ?case by (auto dest: lazy_star_extend)
next
  case (RExactly n p)
  then show ?case by (auto dest: exactly_extend)
next
  case (RGroup a)
  then obtain g1 where a: "(g1, s') \<in> set (run a (g, s))"
    and g': "g' = Some (take (length s - length s') s)" by auto
  from a have "suffix s' s" by (rule run_suffix_pair)
  then have "length s' \<le> length s" by (rule suffix_length_le)
  moreover from a have "(g1, s' @ t) \<in> set (run a (g, s @ t))" by (rule RGroup.IH)
  ultimately show ?case using g' by (force simp: image_iff)
qed

lemma run_id11: "(g', s') \<in> set (run id11 (g, s)) \<Longrightarrow>
  \<exists>v. g' = Some v \<and> length v = 11 \<and> list_all id_char v \<and> s = v @ s'"
  by (auto simp: id11_def exactly_def split: if_splits)

lemma run_tail_id11:
  assumes "(g', s') \<in> set (run (RSeq a (RSeq b (RSeq c id11))) (g, s))"
  shows "\<exists>v p. g' = Some v \<and> length v = 11 \<and> list_all id_char v \<and> s = p @ v @ s'"
proof -
  from assms obtain g1 s1 where 1: "(g1, s1) \<in> set (run (RSeq a (RSeq b c)) (g, s))"
    and 2: "(g', s') \<in> set (run id11 (g1, s1))" by auto
  from 1 have "suffix s1 s" by (rule run_suffix_pair)
  then obtain p where "s = p @ s1" by (auto simp: suffix_def)
  with run_id11[OF 2] show ?thesis by auto
qed

lemma search_tail_id11:
  assumes "search (RSeq a (RSeq b (RSeq c id11))) x = Some m"
  shows "\<exists>v p q. fst m = Some v \<and> length v = 11 \<and> list_all id_char v \<and> x = p @ v @ q"
proof -
  from search_Some[OF assms] obtain u where u: "suffix u x"
    and m: "(fst m, snd m) \<in> set (run (RSeq a (RSeq b (RSeq c id11))) (None, u))" by auto
  from run_tail_id11[OF m] obtain v p where
    "fst m = Some v" "length v = 11" "list_all id_char v" "u = p @ v @ snd m" by blast
  moreover from u obtain p0 where "x = p0 @ u" by (auto simp: suffix_def)
  ultimately have "fst m = Some v \<and> length v = 11 \<and> list_all id_char v \<and> x = (p0 @ p) @ v @ snd m"
    by simp
  then show ?thesis by blast
qed

lemma trim_infix: "\<exists>a b. x = a @ trim x @ b"
proof -
  let ?y = "dropWhile is_space x"
  let ?z = "dropWhile is_space (rev ?y)"
  have "x = takeWhile is_space x @ ?y" by simp
  moreover have "rev ?y = takeWhile is_space (rev ?y) @ ?z" by simp
  then have "?y = rev ?z @ rev (takeWhile is_space (rev ?y))"
    by (metis rev_append rev_rev_ident)
  ultimately have "x = takeWhile is_space x @ trim x @ rev (takeWhile is_space (rev ?y))"
    unfolding trim_def by metis
  then show ?thesis by blast
qed

lemma trim_fixed: "s = [] \<or> (\<not> is_space (hd s) \<and> \<not> is_space (last s)) \<Longrightarrow> trim s = s"
proof (cases s)
  case Nil
  then show ?thesis by (simp add: trim_def)
next
  case (Cons c cs)
  assume "s = [] \<or> (\<not> is_space (hd s) \<and> \<not> is_space (last s))"
  with Cons have h: "\<not> is_space (hd s)" and l: "\<not> is_space (last s)" by auto
  from Cons h have 1: "dropWhile is_space s = s" by simp
  from Cons have ne: "s \<noteq> []" by simp
  then have "hd (rev s) = last s" by (metis hd_rev)
  with l have "\<not> is_space (hd (rev s))" by simp
  moreover from ne have "rev s \<noteq> []" by simp
  ultimately have "dropWhile is_space (rev s) = rev s" by (cases "rev s") auto
  with 1 show ?thesis by (simp add: trim_def)
qed

lemma trim_ends: "trim x = [] \<or> (\<not> is_space (hd (trim x)) \<and> \<not> is_space (last (trim x)))"
proof (cases "trim x = []")
  case True
  then show ?thesis by simp
next
  case False
  let ?y = "dropWhile is_space x"
  let ?z = "dropWhile is_space (rev ?y)"
  from False have z: "?z \<noteq> []" by (simp add: trim_def)
  then have "\<not> is_space (hd ?z)" by (rule hd_dropWhile)
  then have l: "\<not> is_space (last (trim x))" using z by (simp add: trim_def last_rev)
  have y: "?y \<noteq> []"
  proof
    assume "?y = []"
    then have "?z = []" by (simp del: dropWhile_eq_Nil_conv)
    with z show False by simp
  qed
  then have hy: "\<not> is_space (hd ?y)" by (rule hd_dropWhile)
  have "suffix ?z (rev ?y)" by (rule suffix_dropWhile)
  then obtain zs where "rev ?y = zs @ ?z" by (auto simp: suffix_def)
  then have "last (rev ?y) = last ?z" using z by (metis last_appendR)
  then have "last ?z = last (rev ?y)" by simp
  then have "hd (trim x) = hd ?y" using y z by (simp add: trim_def hd_rev last_rev)
  with hy l show ?thesis by simp
qed

lemma trim_idem: "trim (trim x) = trim x"
  using trim_fixed[OF trim_ends] .

lemma trim_no_space: "\<not> list_ex is_space v \<Longrightarrow> trim v = v"
proof (rule trim_fixed, cases "v = []")
  case False
  assume "\<not> list_ex is_space v"
  moreover from False have "hd v \<in> set v" "last v \<in> set v" by simp_all
  ultimately show "v = [] \<or> (\<not> is_space (hd v) \<and> \<not> is_space (last v))"
    by (auto simp: list_ex_iff)
qed simp

lemma trim_empty_iff: "trim s = [] \<longleftrightarrow> list_all is_space s"
proof
  assume "trim s = []"
  then have a: "\<forall>c\<in>set (dropWhile is_space s). is_space c"
    by (simp add: trim_def)
  have "dropWhile is_space s = []"
  proof (rule ccontr)
    assume ne: "dropWhile is_space s \<noteq> []"
    then have "\<not> is_space (hd (dropWhile is_space s))" by (rule hd_dropWhile)
    moreover from ne have "hd (dropWhile is_space s) \<in> set (dropWhile is_space s)" by simp
    ultimately show False using a by blast
  qed
  then show "list_all is_space s" by (simp add: list_all_iff)
next
  assume "list_all is_space s"
  then have "dropWhile is_space s = []" by (simp add: list_all_iff)
  then show "trim s = []" by (simp add: trim_def del: dropWhile_eq_Nil_conv)
qed

lemma id_char_plain: "id_char c \<Longrightarrow> c \<noteq> CHR ''/'' \<and> c \<noteq> CHR ''?'' \<and> \<not> is_space c"
  by (auto simp: id_char_def in_range_def is_space_def)

lemma consumes_backend: "consumes (\<lambda>c. c = CHR ''/'' \<or> c = CHR ''?'') backend_regex"
  by (simp add: backend_regex_def backend_core_def scheme_opt_def www_opt_def v_or_embed_def id11_def two_segments_def)

lemma consumes_gemini: "consumes (\<lambda>c. c = CHR ''/'') gemini_regex"
  by (simp add: gemini_regex_def gemini_core_def scheme_opt_def www_opt_def v_or_embed_def id11_def two_segments_def)

lemma search_backend_plain:
  "CHR ''/'' \<notin> set x \<Longrightarrow> CHR ''?'' \<notin> set x \<Longrightarrow> search backend_regex x = None"
  by (rule search_consumes[OF consumes_backend]) (auto simp: list_ex_iff)

lemma search_gemini_plain: "CHR ''/'' \<notin> set x \<Longrightarrow> search gemini_regex x = None"
  by (rule search_consumes[OF consumes_gemini]) (auto simp: list_ex_iff)

lemma search_group_set:
  assumes "search backend_regex x = Some m \<or> search gemini_regex x = Some m"
  shows "\<exists>v p q. fst m = Some v \<and> group1 m = v \<and> length v = 11 \<and> list_all id_char v \<and> x = p @ v @ q"
proof -
  have "\<exists>v p q. fst m = Some v \<and> length v = 11 \<and> list_all id_char v \<and> x = p @ v @ q"
    using assms search_tail_id11[of scheme_opt www_opt backend_core x m]
      search_tail_id11[of scheme_opt www_opt gemini_core x m]
    unfolding backend_regex_def gemini_regex_def by blast
  then obtain v p q where "fst m = Some v" "length v = 11" "list_all id_char v" "x = p @ v @ q"
    by blast
  then have "fst m = Some v \<and> group1 m = v \<and> length v = 11 \<and> list_all id_char v \<and> x = p @ v @ q"
    by (simp add: group1_def)
  then show ?thesis by blast
qed

lemma search_infix_None:
  assumes "search r (a @ y @ b) = None"
  shows "search r y = None"
  unfolding search_None_iff
proof (intro allI impI)
  fix u assume "suffix u y"
  then obtain p where "y = p @ u" by (auto simp: suffix_def)
  then have "suffix (u @ b) (a @ y @ b)" by (auto simp: suffix_def)
  with assms have e: "run r (None, u @ b) = []" by (simp add: search_None_iff)
  show "run r (None, u) = []"
  proof (rule ccontr)
    assume "run r (None, u) \<noteq> []"
    then obtain g' s' where "(g', s') \<in> set (run r (None, u))"
      by (cases "run r (None, u)") auto
    then have "(g', s' @ b) \<in> set (run r (None, u @ b))" by (rule run_extend)
    with e show False by simp
  qed
qed

lemma search_trim_None: "search r x = None \<Longrightarrow> search r (trim x) = None"
  using trim_infix[of x] search_infix_None by metis

lemma id_string_plain:
  assumes "list_all id_char v"
  shows "CHR ''/'' \<notin> set v" "CHR ''?'' \<notin> set v" "\<not> list_ex is_space v"
  using assms id_char_plain by (auto simp: list_all_iff list_ex_iff)

lemma extract_idem: "extractVideoId (extractVideoId x) = extractVideoId x"
proof (cases "search backend_regex x")
  case None
  then have "search backend_regex (trim x) = None" by (rule search_trim_None)
  with None show ?thesis by (simp add: extractVideoId_def trim_idem)
next
  case (Some m)
  then obtain v where v: "group1 m = v" "list_all id_char v"
    using search_group_set[of x m] by blast
  from Some v have e: "extractVideoId x = v" by (simp add: extractVideoId_def)
  from v have "search backend_regex v = None" "trim v = v"
    using id_string_plain[of v] by (simp_all add: search_backend_plain trim_no_space)
  then have "extractVideoId v = v" by (simp add: extractVideoId_def)
  with e show ?thesis by simp
qed

lemma gemini_twice: "gemini_videoId (gemini_videoId x) = ''unknown''"
proof -
  have "CHR ''/'' \<notin> set (gemini_videoId x)"
  proof (cases "search gemini_regex x")
    case None
    then show ?thesis by (simp add: gemini_videoId_def)
  next
    case (Some m)
    then obtain v where "group1 m = v" "list_all id_char v"
      using search_group_set[of x m] by blast
    with Some show ?thesis using id_string_plain(1)[of v] by (simp add: gemini_videoId_def)
  qed
  then show ?thesis by (simp add: gemini_videoId_def[of "gemini_videoId x"] search_gemini_plain)
qed










section \<open>The patterns on video URLs\<close>

lemma two_segments_fail: "CHR ''/'' \<notin> set s \<Longrightarrow> run two_segments (g, s) = []"
  by (rule run_consumes[where P = "\<lambda>c. c = CHR ''/''"]) (auto simp: two_segments_def list_ex_iff)

lemma two_segments_embed:
  assumes "CHR ''/'' \<notin> set t"
  shows "run two_segments
           (g, CHR ''e'' # CHR ''m'' # CHR ''b'' # CHR ''e'' # CHR ''d'' # CHR ''/'' # t) = []"
proof -
  define R where "R = RSeq (RPlus non_space) (RLit ''/'')"
  have ts: "two_segments = RSeq (RPlus seg_char) (RSeq (RLit ''/'') R)"
    by (simp add: two_segments_def R_def)
  have "run R (g', t) = []" for g'
    unfolding R_def
    using assms by (intro run_consumes[where P = "\<lambda>c. c = CHR ''/''"]) (auto simp: list_ex_iff)
  then show ?thesis by (simp add: ts seg_char_def is_space_def)
qed

lemma exactly_id: "length v = 11 \<Longrightarrow> list_all id_char v \<Longrightarrow> exactly 11 id_char (v @ q) = [q]"
  by (simp add: exactly_def)

lemmas pattern_defs = backend_regex_def backend_core_def gemini_regex_def gemini_core_def
  scheme_opt_def www_opt_def v_or_embed_def id11_def

lemma backend_canonical:
  assumes "pre \<in> set video_url_prefixes" "length v = 11" "list_all id_char v" "CHR ''/'' \<notin> set q"
  shows "search backend_regex (pre @ v @ q) = Some (Some v, q)"
proof -
  from assms have v: "CHR ''/'' \<notin> set v" using id_string_plain(1) by blast
  from assms(1) have "pre \<in> set video_url_prefixes" .
  then show ?thesis
    unfolding video_url_prefixes_def
    apply simp
    apply (elim disjE)
    using assms(2-4) v
    apply (simp_all add: pattern_defs exactly_id two_segments_fail two_segments_embed)
    done
qed

lemma gemini_canonical:
  assumes "pre \<in> set video_url_prefixes" "length v = 11" "list_all id_char v" "CHR ''/'' \<notin> set q"
  shows "search gemini_regex (pre @ v @ q) = Some (Some v, q)"
proof -
  from assms have v: "CHR ''/'' \<notin> set v" using id_string_plain(1) by blast
  from assms(1) have "pre \<in> set video_url_prefixes" .
  then show ?thesis
    unfolding video_url_prefixes_def
    apply simp
    apply (elim disjE)
    using assms(2-4) v
    apply (simp_all add: pattern_defs exactly_id two_segments_fail two_segments_embed
       non_space_def is_space_def qmark_amp_def)
    done
qed


section \<open>Properties of the controller\<close>

lemma loading_inv_LOADING:
  "loading_inv s \<Longrightarrow> status s = LOADING \<Longrightarrow>
     data s = JNull \<and> error s = None \<and> (\<exists>u. pending s = [u] \<and> trim u \<noteq> [])"
  by (auto simp: loading_inv_def split: list.splits)

lemma loading_inv_other: "loading_inv s \<Longrightarrow> status s \<noteq> LOADING \<Longrightarrow> pending s = []"
  by (simp add: loading_inv_def)

lemma loading_inv_initial: "loading_inv initial"
  by (simp add: loading_inv_def initial_def)

lemma fire_loading_inv:
  assumes "loading_inv s" "fire analyze e s = Some s'"
  shows "loading_inv s'"
proof (cases e)
  case (Typing u)
  with assms show ?thesis by (auto simp: loading_inv_def)
next
  case Submit
  with assms have "status s \<noteq> LOADING" "s' = submit s" by (auto split: if_splits)
  with assms(1) show ?thesis by (auto simp: loading_inv_def submit_def)
next
  case (Settle k out)
  with assms have k: "k < length (pending s)" and s': "s' = settle analyze k out s"
    by (auto split: if_splits)
  from k assms(1) have l: "status s = LOADING" by (auto simp: loading_inv_def split: if_splits)
  from loading_inv_LOADING[OF assms(1) l] k obtain u where "pending s = [u]" "k = 0" by auto
  with s' show ?thesis by (auto simp: loading_inv_def settle_def Let_def split: sum.splits)
qed

lemma execute_loading_inv:
  "loading_inv s \<Longrightarrow> execute analyze es s = Some s' \<Longrightarrow> loading_inv s'"
proof (induction es arbitrary: s)
  case Nil
  then show ?case by simp
next
  case (Cons e es)
  then show ?case by (auto split: option.splits dest: fire_loading_inv)
qed

lemma handleSubmit_result:
  assumes "trim (url s) \<noteq> []"
  shows "handleSubmit analyze out s =
    (case analyze (url s) out of
       Inr result \<Rightarrow> s\<lparr>status := SUCCESS, error := None, data := result\<rparr>
     | Inl err \<Rightarrow> s\<lparr>status := ERROR, error := Some user_message, data := JNull,
                     console := console s @ [err]\<rparr>)"
  using assms by (simp add: handleSubmit_def submit_def settle_def Let_def split: sum.splits)

lemma gemini_Inr:
  "gemini_analyzeVideoSentiment u out = Inr r \<longleftrightarrow>
   (\<exists>d. out = GenResponse (Some d) \<and>
        r = JObj (AList.update ''video_id'' (JStr (gemini_videoId u)) (own_props d)))"
  by (auto simp: gemini_analyzeVideoSentiment_def Let_def split: gen_outcome.splits option.splits)

lemma backend_Inr:
  "backend_analyzeVideoSentiment u out = Inr r \<longleftrightarrow> (\<exists>st. ok st \<and> out = HttpResponse st (Some r))"
  by (auto simp: backend_analyzeVideoSentiment_def Let_def split: http_outcome.splits option.splits)


section \<open>Input normalisation: claims C4, C5, C6 and C9\<close>

text \<open>
  Claim C4, as the code has it. An input with no URL structure (neither \<^verbatim>\<open>/\<close> nor \<^verbatim>\<open>?\<close>
  occurs in it) is normalised by the HTTP backend form to the trimmed input, and by the
  generative form to the fixed string \<^verbatim>\<open>unknown\<close>.
\<close>

theorem plain_input_normalisation:
  assumes "CHR ''/'' \<notin> set x" and "CHR ''?'' \<notin> set x"
  shows "extractVideoId x = trim x \<and> gemini_videoId x = ''unknown''"
  using assms
  by (simp add: extractVideoId_def gemini_videoId_def search_backend_plain search_gemini_plain)

theorem plain_input_normalisation_witness:
  "CHR ''/'' \<notin> set ''  Ks-_Mh1QhMc  '' \<and> CHR ''?'' \<notin> set ''  Ks-_Mh1QhMc  '' \<and>
   extractVideoId ''  Ks-_Mh1QhMc  '' = ''Ks-_Mh1QhMc'' \<and>
   gemini_videoId ''  Ks-_Mh1QhMc  '' = ''unknown''"
  using plain_input_normalisation[of "''  Ks-_Mh1QhMc  ''"]
  by (simp add: trim_def is_space_def)

text \<open>
  Claim C4 as stated fails for the generative form: the bare identifier is not returned.
\<close>

theorem gemini_bare_identifier_unknown:
  "gemini_videoId ''  Ks-_Mh1QhMc  '' = ''unknown'' \<and>
   gemini_videoId ''  Ks-_Mh1QhMc  '' \<noteq> ''Ks-_Mh1QhMc''"
  by code_simp

text \<open>
  Claim C5, as the code has it. The normalisation of the HTTP backend form is idempotent.
  The normalisation of the generative form applied to its own result is \<^verbatim>\<open>unknown\<close>,
  whatever the input was.
\<close>

theorem normalisation_twice:
  "extractVideoId (extractVideoId x) = extractVideoId x \<and>
   gemini_videoId (gemini_videoId x) = ''unknown''"
  by (simp add: extract_idem gemini_twice)

theorem normalisation_twice_witness:
  "extractVideoId (extractVideoId ''https://youtu.be/Ks-_Mh1QhMc'') = ''Ks-_Mh1QhMc'' \<and>
   gemini_videoId (gemini_videoId ''https://youtu.be/Ks-_Mh1QhMc'') = ''unknown''"
proof -
  have "extractVideoId ''https://youtu.be/Ks-_Mh1QhMc'' = ''Ks-_Mh1QhMc''" by code_simp
  then show ?thesis
    using normalisation_twice[of "''https://youtu.be/Ks-_Mh1QhMc''"] by simp
qed

text \<open>
  Claim C5 as stated fails for the generative form: normalising the identifier it has
  extracted does not give that identifier back.
\<close>

theorem gemini_videoId_not_idempotent:
  "gemini_videoId ''https://youtu.be/Ks-_Mh1QhMc'' = ''Ks-_Mh1QhMc'' \<and>
   gemini_videoId (gemini_videoId ''https://youtu.be/Ks-_Mh1QhMc'') = ''unknown''"
  by code_simp




text \<open>
  Claim C9, as the code has it. On the watch, shortened and embed forms of a video URL,
  followed by any text without \<^verbatim>\<open>/\<close>, the two implementations compute the same
  identifier.
\<close>

theorem providers_agree_on_video_urls:
  assumes "pre \<in> set video_url_prefixes" and "length v = 11" and "list_all id_char v"
    and "CHR ''/'' \<notin> set t"
  shows "extractVideoId (pre @ v @ t) = gemini_videoId (pre @ v @ t)"
  using assms
  by (simp add: extractVideoId_def gemini_videoId_def backend_canonical gemini_canonical)

theorem providers_agree_on_video_urls_witness:
  "''https://www.youtube.com/watch?v='' \<in> set video_url_prefixes \<and>
   length ''Ks-_Mh1QhMc'' = 11 \<and> list_all id_char ''Ks-_Mh1QhMc'' \<and>
   CHR ''/'' \<notin> set ''&t=42s'' \<and>
   extractVideoId ''https://www.youtube.com/watch?v=Ks-_Mh1QhMc&t=42s'' =
   gemini_videoId ''https://www.youtube.com/watch?v=Ks-_Mh1QhMc&t=42s''"
proof -
  have 3: "''https://www.youtube.com/watch?v='' \<in> set video_url_prefixes"
    by (simp add: video_url_prefixes_def)
  have 4: "list_all id_char ''Ks-_Mh1QhMc''" by (simp add: id_char_def in_range_def)
  show ?thesis
    using providers_agree_on_video_urls[of "''https://www.youtube.com/watch?v=''"
        "''Ks-_Mh1QhMc''" "''&t=42s''"] 3 4
    by simp
qed

text \<open>
  Claim C9 as stated fails: on a bare identifier, and on a watch URL whose \<^verbatim>\<open>v\<close> is not
  the first query parameter, the two implementations compute different identifiers.
\<close>

theorem providers_differ_on_bare_identifier:
  "extractVideoId ''Ks-_Mh1QhMc'' = ''Ks-_Mh1QhMc'' \<and>
   gemini_videoId ''Ks-_Mh1QhMc'' = ''unknown'' \<and>
   extractVideoId ''https://www.youtube.com/watch?feature=share&v=Ks-_Mh1QhMc'' =
     ''https://www.youtube.com/watch?feature=share&v=Ks-_Mh1QhMc'' \<and>
   gemini_videoId ''https://www.youtube.com/watch?feature=share&v=Ks-_Mh1QhMc'' = ''Ks-_Mh1QhMc''"
  by code_simp


section \<open>The controller: claims C1, C2, C3, C7, C8 and C10\<close>

text \<open>
  Claim C1, as the code has it. For every submission whose provider call succeeds: with the
  generative provider the result stored in the \<open>SUCCESS\<close> state has \<^verbatim>\<open>video_id\<close> equal to
  the locally computed identifier, whatever the provider returned; with the HTTP backend
  the stored result is the response body as parsed, unchanged.
\<close>

theorem success_video_id_by_provider:
  assumes "trim (url s) \<noteq> []"
  shows "(gemini_analyzeVideoSentiment (url s) gen = Inr r \<longrightarrow>
            status (handleSubmit gemini_analyzeVideoSentiment gen s) = SUCCESS \<and>
            data (handleSubmit gemini_analyzeVideoSentiment gen s) = r \<and>
            get_prop r ''video_id'' = Some (JStr (gemini_videoId (url s)))) \<and>
         (backend_analyzeVideoSentiment (url s) http = Inr r' \<longrightarrow>
            status (handleSubmit backend_analyzeVideoSentiment http s) = SUCCESS \<and>
            data (handleSubmit backend_analyzeVideoSentiment http s) = r' \<and>
            (\<exists>st. http = HttpResponse st (Some r')))"
proof (intro conjI impI)
  assume g: "gemini_analyzeVideoSentiment (url s) gen = Inr r"
  with assms show "status (handleSubmit gemini_analyzeVideoSentiment gen s) = SUCCESS"
    and "data (handleSubmit gemini_analyzeVideoSentiment gen s) = r"
    by (simp_all add: handleSubmit_result)
  from g show "get_prop r ''video_id'' = Some (JStr (gemini_videoId (url s)))"
    by (auto simp: gemini_Inr get_prop_def update_conv')
next
  assume b: "backend_analyzeVideoSentiment (url s) http = Inr r'"
  with assms show "status (handleSubmit backend_analyzeVideoSentiment http s) = SUCCESS"
    and "data (handleSubmit backend_analyzeVideoSentiment http s) = r'"
    by (simp_all add: handleSubmit_result)
  from b show "\<exists>st. http = HttpResponse st (Some r')"
    by (auto simp: backend_Inr)
qed

theorem success_video_id_by_provider_witness:
  "trim ''https://youtu.be/Ks-_Mh1QhMc'' \<noteq> [] \<and>
   get_prop (data (handleSubmit gemini_analyzeVideoSentiment
       (GenResponse (Some (JObj [(''video_id'', JStr ''XYZ123'')])))
       (initial\<lparr>url := ''https://youtu.be/Ks-_Mh1QhMc''\<rparr>))) ''video_id''
     = Some (JStr ''Ks-_Mh1QhMc'') \<and>
   data (handleSubmit backend_analyzeVideoSentiment
       (HttpResponse 200 (Some (JObj [(''video_id'', JStr ''XYZ123'')])))
       (initial\<lparr>url := ''https://youtu.be/Ks-_Mh1QhMc''\<rparr>))
     = JObj [(''video_id'', JStr ''XYZ123'')]"
proof -
  have g: "gemini_videoId ''https://youtu.be/Ks-_Mh1QhMc'' = ''Ks-_Mh1QhMc''" by code_simp
  have t: "trim ''https://youtu.be/Ks-_Mh1QhMc'' \<noteq> []" by code_simp
  show ?thesis
    using success_video_id_by_provider[of "initial\<lparr>url := ''https://youtu.be/Ks-_Mh1QhMc''\<rparr>"
        "GenResponse (Some (JObj [(''video_id'', JStr ''XYZ123'')]))"
        "JObj [(''video_id'', JStr ''Ks-_Mh1QhMc'')]"
        "HttpResponse 200 (Some (JObj [(''video_id'', JStr ''XYZ123'')]))"
        "JObj [(''video_id'', JStr ''XYZ123'')]"] g t
    by (simp add: gemini_analyzeVideoSentiment_def backend_analyzeVideoSentiment_def
        own_props_def ok_def)
qed

text \<open>
  Claim C1 as stated fails for the HTTP backend: for the input \<^verbatim>\<open>ABC456\<close>, whose
  normalised identifier is \<^verbatim>\<open>ABC456\<close>, and a response with \<^verbatim>\<open>video_id = "XYZ123"\<close>, the
  \<open>SUCCESS\<close> state holds \<^verbatim>\<open>XYZ123\<close>.
\<close>

theorem backend_success_keeps_returned_video_id:
  "extractVideoId ''ABC456'' = ''ABC456'' \<and>
   status (handleSubmit backend_analyzeVideoSentiment
       (HttpResponse 200 (Some (JObj [(''video_id'', JStr ''XYZ123''), (''score'', JNum 81.4),
          (''label'', JStr ''Positive''),
          (''components'', JObj [(''transcript_mean'', JNum 0.7), (''comments_mean'', JNum 0.6),
             (''engagement'', JNum 0.5)]),
          (''model_accuracy'', JNum 88.2)])))
       (initial\<lparr>url := ''ABC456''\<rparr>)) = SUCCESS \<and>
   get_prop (data (handleSubmit backend_analyzeVideoSentiment
       (HttpResponse 200 (Some (JObj [(''video_id'', JStr ''XYZ123''), (''score'', JNum 81.4),
          (''label'', JStr ''Positive''),
          (''components'', JObj [(''transcript_mean'', JNum 0.7), (''comments_mean'', JNum 0.6),
             (''engagement'', JNum 0.5)]),
          (''model_accuracy'', JNum 88.2)])))
       (initial\<lparr>url := ''ABC456''\<rparr>))) ''video_id'' = Some (JStr ''XYZ123'')"
proof -
  have "extractVideoId ''ABC456'' = ''ABC456''" by code_simp
  moreover have "trim ''ABC456'' \<noteq> []" by code_simp
  ultimately show ?thesis
    by (simp add: handleSubmit_result backend_analyzeVideoSentiment_def ok_def initial_def
        get_prop_def)
qed

text \<open>
  Claim C2, as the code has it. For every provider response whose payload does not parse
  as JSON the controller ends in the \<open>ERROR\<close> state with the generic user message. A
  payload that parses is not checked for the fields of an analysis result: it is stored
  and the state is \<open>SUCCESS\<close>.
\<close>

theorem unparsable_payload_is_error:
  assumes "trim (url s) \<noteq> []"
  shows "status (handleSubmit gemini_analyzeVideoSentiment (GenResponse None) s) = ERROR \<and>
         error (handleSubmit gemini_analyzeVideoSentiment (GenResponse None) s)
           = Some user_message \<and>
         status (handleSubmit backend_analyzeVideoSentiment (HttpResponse st None) s) = ERROR \<and>
         error (handleSubmit backend_analyzeVideoSentiment (HttpResponse st None) s)
           = Some user_message \<and>
         status (handleSubmit gemini_analyzeVideoSentiment (GenResponse (Some j)) s) = SUCCESS \<and>
         (ok st \<longrightarrow>
            status (handleSubmit backend_analyzeVideoSentiment (HttpResponse st (Some j)) s)
              = SUCCESS \<and>
            data (handleSubmit backend_analyzeVideoSentiment (HttpResponse st (Some j)) s) = j)"
  using assms
  by (simp add: handleSubmit_result gemini_analyzeVideoSentiment_def
      backend_analyzeVideoSentiment_def)

theorem unparsable_payload_is_error_witness:
  "trim ''abc'' \<noteq> [] \<and> ok 200 \<and>
   status (handleSubmit backend_analyzeVideoSentiment (HttpResponse 200 None)
      (initial\<lparr>url := ''abc''\<rparr>)) = ERROR \<and>
   error (handleSubmit backend_analyzeVideoSentiment (HttpResponse 200 None)
      (initial\<lparr>url := ''abc''\<rparr>))
     = Some ''Failed to process video. Please check the URL and try again.'' \<and>
   status (handleSubmit backend_analyzeVideoSentiment (HttpResponse 200 (Some (JObj [])))
      (initial\<lparr>url := ''abc''\<rparr>)) = SUCCESS"
proof -
  have t: "trim ''abc'' \<noteq> []" by code_simp
  show ?thesis
    using unparsable_payload_is_error[of "initial\<lparr>url := ''abc''\<rparr>" 200 "JObj []"] t
    by (simp add: ok_def user_message_def)
qed

text \<open>
  Claim C2 as stated fails for a payload that parses and lacks every field of an analysis
  result: the controller ends in \<open>SUCCESS\<close>, with either provider.
\<close>

theorem missing_fields_reach_success:
  "status (handleSubmit backend_analyzeVideoSentiment (HttpResponse 200 (Some (JObj [])))
      (initial\<lparr>url := ''abc''\<rparr>)) = SUCCESS \<and>
   data (handleSubmit backend_analyzeVideoSentiment (HttpResponse 200 (Some (JObj [])))
      (initial\<lparr>url := ''abc''\<rparr>)) = JObj [] \<and>
   status (handleSubmit gemini_analyzeVideoSentiment (GenResponse (Some (JObj [])))
      (initial\<lparr>url := ''abc''\<rparr>)) = SUCCESS \<and>
   get_prop (data (handleSubmit gemini_analyzeVideoSentiment (GenResponse (Some (JObj [])))
      (initial\<lparr>url := ''abc''\<rparr>))) ''score'' = None"
proof -
  have "trim ''abc'' \<noteq> []" by code_simp
  then show ?thesis
    by (simp add: handleSubmit_result backend_analyzeVideoSentiment_def ok_def initial_def
        gemini_analyzeVideoSentiment_def own_props_def get_prop_def)
qed

text \<open>
  Claim C3, as the code has it. For the input \<^verbatim>\<open>abc\<close> and a payload with \<^verbatim>\<open>score\<close>,
  \<^verbatim>\<open>label\<close>, \<^verbatim>\<open>components\<close> and \<^verbatim>\<open>model_accuracy\<close> but no \<^verbatim>\<open>video_id\<close>: the HTTP
  backend form, whose identifier is \<^verbatim>\<open>abc\<close>, ends on a 200 response in \<open>SUCCESS\<close> with that
  body stored unchanged, without a \<^verbatim>\<open>video_id\<close>; the generative form ends in \<open>SUCCESS\<close>
  with \<^verbatim>\<open>video_id\<close> equal to its own identifier, which is \<^verbatim>\<open>unknown\<close>.
\<close>

theorem body_without_video_id:
  "extractVideoId ''abc'' = ''abc'' \<and>
   status (handleSubmit backend_analyzeVideoSentiment
       (HttpResponse 200 (Some (JObj [(''score'', JNum 81.4), (''label'', JStr ''Positive''),
          (''components'', JObj [(''transcript_mean'', JNum 0.7), (''comments_mean'', JNum 0.6),
             (''engagement'', JNum 0.5)]),
          (''model_accuracy'', JNum 88.2)])))
       (initial\<lparr>url := ''abc''\<rparr>)) = SUCCESS \<and>
   data (handleSubmit backend_analyzeVideoSentiment
       (HttpResponse 200 (Some (JObj [(''score'', JNum 81.4), (''label'', JStr ''Positive''),
          (''components'', JObj [(''transcript_mean'', JNum 0.7), (''comments_mean'', JNum 0.6),
             (''engagement'', JNum 0.5)]),
          (''model_accuracy'', JNum 88.2)])))
       (initial\<lparr>url := ''abc''\<rparr>)) = JObj [(''score'', JNum 81.4), (''label'', JStr ''Positive''),
          (''components'', JObj [(''transcript_mean'', JNum 0.7), (''comments_mean'', JNum 0.6),
             (''engagement'', JNum 0.5)]),
          (''model_accuracy'', JNum 88.2)] \<and>
   gemini_videoId ''abc'' = ''unknown'' \<and>
   status (handleSubmit gemini_analyzeVideoSentiment
       (GenResponse (Some (JObj [(''score'', JNum 81.4), (''label'', JStr ''Positive''),
          (''components'', JObj [(''transcript_mean'', JNum 0.7), (''comments_mean'', JNum 0.6),
             (''engagement'', JNum 0.5)]),
          (''model_accuracy'', JNum 88.2)])))
       (initial\<lparr>url := ''abc''\<rparr>)) = SUCCESS \<and>
   get_prop (data (handleSubmit gemini_analyzeVideoSentiment
       (GenResponse (Some (JObj [(''score'', JNum 81.4), (''label'', JStr ''Positive''),
          (''components'', JObj [(''transcript_mean'', JNum 0.7), (''comments_mean'', JNum 0.6),
             (''engagement'', JNum 0.5)]),
          (''model_accuracy'', JNum 88.2)])))
       (initial\<lparr>url := ''abc''\<rparr>))) ''video_id'' = Some (JStr ''unknown'')"
proof -
  have "extractVideoId ''abc'' = ''abc''" by code_simp
  moreover have g: "gemini_videoId ''abc'' = ''unknown''" by code_simp
  moreover have "trim ''abc'' \<noteq> []" by code_simp
  ultimately show ?thesis
    by (simp add: handleSubmit_result backend_analyzeVideoSentiment_def ok_def initial_def
        gemini_analyzeVideoSentiment_def own_props_def get_prop_def)
qed

text \<open>
  Claim C3 as stated fails for the HTTP backend: the stored result has no \<^verbatim>\<open>video_id\<close>,
  so it is not \<^verbatim>\<open>abc\<close>.
\<close>

theorem backend_body_without_video_id:
  "extractVideoId ''abc'' = ''abc'' \<and>
   get_prop (data (handleSubmit backend_analyzeVideoSentiment
       (HttpResponse 200 (Some (JObj [(''score'', JNum 81.4), (''label'', JStr ''Positive''),
          (''components'', JObj [(''transcript_mean'', JNum 0.7), (''comments_mean'', JNum 0.6),
             (''engagement'', JNum 0.5)]),
          (''model_accuracy'', JNum 88.2)])))
       (initial\<lparr>url := ''abc''\<rparr>))) ''video_id'' \<noteq> Some (JStr ''abc'')"
proof -
  have "extractVideoId ''abc'' = ''abc''" by code_simp
  moreover have "trim ''abc'' \<noteq> []" by code_simp
  ultimately show ?thesis
    by (simp add: handleSubmit_result backend_analyzeVideoSentiment_def ok_def initial_def
        get_prop_def)
qed

text \<open>
  Claim C7. Submitting an empty or white-space-only input changes nothing: the status, the
  data, the error and every other cell of the state are as before, and no provider call
  is added to the calls in flight.
\<close>

theorem blank_submission_noop:
  assumes "list_all is_space (url s)"
  shows "submit s = s \<and> handleSubmit analyze out s = s \<and>
         (status s \<noteq> LOADING \<longrightarrow> fire analyze Submit s = Some s)"
  using assms by (simp add: submit_def handleSubmit_def trim_empty_iff)

theorem blank_submission_noop_witness:
  "list_all is_space ''   '' \<and> status (initial\<lparr>url := ''   ''\<rparr>) \<noteq> LOADING \<and>
   handleSubmit backend_analyzeVideoSentiment (HttpResponse 200 (Some JNull))
     (initial\<lparr>url := ''   ''\<rparr>) = initial\<lparr>url := ''   ''\<rparr> \<and>
   fire backend_analyzeVideoSentiment Submit (initial\<lparr>url := ''   ''\<rparr>)
     = Some (initial\<lparr>url := ''   ''\<rparr>) \<and>
   pending (initial\<lparr>url := ''   ''\<rparr>) = []"
  using blank_submission_noop[of "initial\<lparr>url := ''   ''\<rparr>" backend_analyzeVideoSentiment
      "HttpResponse 200 (Some JNull)"]
  by (simp add: is_space_def initial_def)

text \<open>
  Claim C8. For every failing provider outcome (the call rejects, or the backend answers
  with a status outside 200 to 299) the run of \<^verbatim>\<open>handleSubmit\<close> ends in the \<open>ERROR\<close>
  state: the failure is a value that the controller turns into a state, the message shown
  is the fixed, non-empty generic message, and it is not the message of the error thrown
  for the status.
\<close>

theorem provider_failure_is_error:
  assumes "trim (url s) \<noteq> []"
    and "http = FetchRejected why \<or> (\<exists>st body. http = HttpResponse st body \<and> \<not> ok st)"
  shows "status (handleSubmit backend_analyzeVideoSentiment http s) = ERROR \<and>
         error (handleSubmit backend_analyzeVideoSentiment http s) = Some user_message \<and>
         data (handleSubmit backend_analyzeVideoSentiment http s) = JNull \<and>
         status (handleSubmit gemini_analyzeVideoSentiment (GenRejected why) s) = ERROR \<and>
         error (handleSubmit gemini_analyzeVideoSentiment (GenRejected why) s)
           = Some user_message \<and>
         data (handleSubmit gemini_analyzeVideoSentiment (GenRejected why) s) = JNull \<and>
         user_message \<noteq> [] \<and> (\<forall>st. user_message \<noteq> ''Backend error '' @ decimal st)"
proof -
  from assms(2) obtain err where "backend_analyzeVideoSentiment (url s) http = Inl err"
    by (auto simp: backend_analyzeVideoSentiment_def)
  with assms(1) have "status (handleSubmit backend_analyzeVideoSentiment http s) = ERROR"
    "error (handleSubmit backend_analyzeVideoSentiment http s) = Some user_message"
    "data (handleSubmit backend_analyzeVideoSentiment http s) = JNull"
    by (simp_all add: handleSubmit_result)
  moreover have "gemini_analyzeVideoSentiment (url s) (GenRejected why) = Inl (Rejected why)"
    by (simp add: gemini_analyzeVideoSentiment_def)
  with assms(1) have
    "status (handleSubmit gemini_analyzeVideoSentiment (GenRejected why) s) = ERROR"
    "error (handleSubmit gemini_analyzeVideoSentiment (GenRejected why) s) = Some user_message"
    "data (handleSubmit gemini_analyzeVideoSentiment (GenRejected why) s) = JNull"
    by (simp_all add: handleSubmit_result)
  moreover have "user_message \<noteq> []" by (simp add: user_message_def)
  moreover have "\<forall>st. user_message \<noteq> ''Backend error '' @ decimal st"
    by (simp add: user_message_def)
  ultimately show ?thesis by blast
qed

theorem provider_failure_is_error_witness:
  "trim ''abc'' \<noteq> [] \<and> \<not> ok 500 \<and>
   status (handleSubmit backend_analyzeVideoSentiment (HttpResponse 500 None)
      (initial\<lparr>url := ''abc''\<rparr>)) = ERROR \<and>
   error (handleSubmit backend_analyzeVideoSentiment (HttpResponse 500 None)
      (initial\<lparr>url := ''abc''\<rparr>))
     = Some ''Failed to process video. Please check the URL and try again.'' \<and>
   console (handleSubmit backend_analyzeVideoSentiment (HttpResponse 500 None)
      (initial\<lparr>url := ''abc''\<rparr>)) = [BackendError ''Backend error 500'']"
proof -
  have t: "trim ''abc'' \<noteq> []" by code_simp
  have d: "decimal 500 = ''500''" by code_simp
  show ?thesis
    using provider_failure_is_error[of "initial\<lparr>url := ''abc''\<rparr>" "HttpResponse 500 None" "[]"]
      t d
    by (simp add: ok_def user_message_def handleSubmit_result backend_analyzeVideoSentiment_def
        initial_def)
qed

text \<open>
  Claim C10. In every execution from the initial \<open>IDLE\<close> state at most one provider call
  is in flight. A step that ends in \<open>SUCCESS\<close> or \<open>ERROR\<close> either leaves the status, data
  and error as they were (typing, or a blank submission), or it starts in a \<open>LOADING\<close>
  state with exactly one call in flight, issued for a non-empty input, and is the
  settling of that call: the state after it holds the outcome of that one call and
  nothing else.
\<close>

theorem settled_state_follows_single_loading:
  assumes "execute analyze es initial = Some s"
    and "fire analyze e s = Some s'"
    and "status s' = SUCCESS \<or> status s' = ERROR"
  shows "length (pending s) \<le> 1 \<and>
    ((status s' = status s \<and> data s' = data s \<and> error s' = error s \<and>
      pending s' = pending s) \<or>
     (status s = LOADING \<and> data s = JNull \<and> error s = None \<and>
      (\<exists>u out. pending s = [u] \<and> trim u \<noteq> [] \<and> e = Settle 0 out \<and> pending s' = [] \<and>
         (case analyze u out of
            Inr result \<Rightarrow> status s' = SUCCESS \<and> data s' = result \<and> error s' = None
          | Inl err \<Rightarrow> status s' = ERROR \<and> data s' = JNull \<and>
              error s' = Some user_message))))"
proof -
  from assms(1) have inv: "loading_inv s"
    using execute_loading_inv[OF loading_inv_initial] by blast
  then have len: "length (pending s) \<le> 1"
    by (cases "status s = LOADING") (auto dest: loading_inv_LOADING loading_inv_other)
  show ?thesis
  proof (cases e)
    case (Typing u)
    with assms(2) len show ?thesis by auto
  next
    case Submit
    with assms(2) have "s' = submit s" by (auto split: if_splits)
    with assms(3) len show ?thesis by (auto simp: submit_def split: if_splits)
  next
    case (Settle k out)
    with assms(2) have k: "k < length (pending s)" and s': "s' = settle analyze k out s"
      by (auto split: if_splits)
    from k inv have l: "status s = LOADING" by (auto simp: loading_inv_def split: if_splits)
    from loading_inv_LOADING[OF inv l] k obtain u
      where u: "pending s = [u]" "trim u \<noteq> []" "k = 0" "data s = JNull" "error s = None"
      by auto
    with s' l Settle len show ?thesis
      by (auto simp: settle_def Let_def split: sum.splits)
  qed
qed

theorem settled_state_follows_single_loading_witness:
  "execute backend_analyzeVideoSentiment [Typing ''abc'', Submit] initial
     = Some \<lparr>url = ''abc'', status = LOADING, data = JNull, error = None, console = [],
        pending = [''abc'']\<rparr> \<and>
   fire backend_analyzeVideoSentiment (Settle 0 (HttpResponse 200 (Some (JObj []))))
       \<lparr>url = ''abc'', status = LOADING, data = JNull, error = None, console = [],
        pending = [''abc'']\<rparr>
     = Some \<lparr>url = ''abc'', status = SUCCESS, data = JObj [], error = None, console = [],
        pending = []\<rparr> \<and>
   status \<lparr>url = ''abc'', status = SUCCESS, data = JObj [], error = None, console = [],
        pending = []\<rparr> = SUCCESS \<and>
   length (pending \<lparr>url = ''abc'', status = LOADING, data = JNull, error = None, console = [],
        pending = [''abc'']\<rparr>) \<le> 1 \<and>
   status \<lparr>url = ''abc'', status = LOADING, data = JNull, error = None, console = [],
        pending = [''abc'']\<rparr> = LOADING"
  using settled_state_follows_single_loading[of backend_analyzeVideoSentiment
      "[Typing ''abc'', Submit]"
      "\<lparr>url = ''abc'', status = LOADING, data = JNull, error = None, console = [],
        pending = [''abc'']\<rparr>"
      "Settle 0 (HttpResponse 200 (Some (JObj [])))"
      "\<lparr>url = ''abc'', status = SUCCESS, data = JObj [], error = None, console = [],
        pending = []\<rparr>"]
  by (simp add: initial_def submit_def settle_def trim_def is_space_def
      backend_analyzeVideoSentiment_def ok_def Let_def)

end
